theory Spec2Isabelle
  imports Complex_Main
begin

section \<open>Doubles\<close>

text \<open>
  The header \<^verbatim>\<open>polynomial.h\<close> computes with \<^verbatim>\<open>double\<close>. A finite \<^verbatim>\<open>double\<close> is
  modelled by the real number it stands for (the two zeros are one value), the
  other values by constructors of their own.
\<close>

datatype double = Finite real | PInf | NInf | NaN

text \<open>
  An arithmetic operation delivers the exact result rounded to the nearest
  \<^verbatim>\<open>double\<close>, a tie going to the even significand. The spacing of the doubles around
  \<open>r\<close> is \<open>quantum r\<close>: 52 binary places below the leading bit of \<open>r\<close>, and
  \<open>2 powr - 1074\<close> for all \<open>r\<close> below \<open>2 powr - 1022\<close>. A result that rounds to
  \<open>2 ^ 1024\<close> or beyond is an infinity.
\<close>

definition round_even :: "real \<Rightarrow> int" where
  "round_even y =
     (if y - real_of_int \<lfloor>y\<rfloor> < 1 / 2 then \<lfloor>y\<rfloor>
      else if 1 / 2 < y - real_of_int \<lfloor>y\<rfloor> then \<lfloor>y\<rfloor> + 1
      else if even \<lfloor>y\<rfloor> then \<lfloor>y\<rfloor> else \<lfloor>y\<rfloor> + 1)"

definition quantum :: "real \<Rightarrow> real" where
  "quantum r = 2 powr real_of_int (max \<lfloor>log 2 \<bar>r\<bar>\<rfloor> (- 1022) - 52)"

definition round_double :: "real \<Rightarrow> double" where
  "round_double r =
     (if r = 0 then Finite 0
      else if 2 ^ 1024 \<le> \<bar>quantum r * real_of_int (round_even (r / quantum r))\<bar>
        then (if 0 < r then PInf else NInf)
      else Finite (quantum r * real_of_int (round_even (r / quantum r))))"

text \<open>The reals that are doubles: zero, and below \<open>2 ^ 1024\<close> the multiples of their
  quantum.\<close>

definition is_double :: "real \<Rightarrow> bool" where
  "is_double r = (r = 0 \<or> \<bar>r\<bar> < 2 ^ 1024 \<and> r / quantum r \<in> \<int>)"

text \<open>Sum and product. The operands of a sum are coefficients, which are finite; a
  product may have an infinite or NaN operand, since \<^verbatim>\<open>Term::cal\<close> multiplies what
  it has computed.\<close>

definition dadd :: "real \<Rightarrow> real \<Rightarrow> double" where
  "dadd a b = round_double (a + b)"

fun dmul :: "double \<Rightarrow> double \<Rightarrow> double" where
  "dmul NaN y = NaN"
| "dmul x NaN = NaN"
| "dmul (Finite a) (Finite b) = round_double (a * b)"
| "dmul (Finite a) PInf = (if a = 0 then NaN else if 0 < a then PInf else NInf)"
| "dmul (Finite a) NInf = (if a = 0 then NaN else if 0 < a then NInf else PInf)"
| "dmul PInf (Finite b) = (if b = 0 then NaN else if 0 < b then PInf else NInf)"
| "dmul NInf (Finite b) = (if b = 0 then NaN else if 0 < b then NInf else PInf)"
| "dmul PInf PInf = PInf"
| "dmul PInf NInf = NInf"
| "dmul NInf PInf = NInf"
| "dmul NInf NInf = PInf"

text \<open>
  A \<^verbatim>\<open>double\<close> passed where an \<^verbatim>\<open>int\<close> parameter is expected is converted
  implicitly: the fractional part is discarded, that is, the value is rounded
  towards zero. An \<^verbatim>\<open>int\<close> has 32 bits. C++ leaves the conversion undefined when the
  integral part does not fit; the conversion instruction of x86-64 then delivers
  \<open>- (2 ^ 31)\<close>, and so does the model. What is proved about the conversion below names
  the range it is proved for.
\<close>

definition int_range :: "real \<Rightarrow> bool" where
  "int_range v = (- 2147483649 < v \<and> v < 2147483648)"

fun double_to_int :: "double \<Rightarrow> int" where
  "double_to_int (Finite v) =
     (if int_range v then (if 0 \<le> v then \<lfloor>v\<rfloor> else \<lceil>v\<rceil>) else - 2147483648)"
| "double_to_int PInf = - 2147483648"
| "double_to_int NInf = - 2147483648"
| "double_to_int NaN = - 2147483648"

section \<open>Terms\<close>

text \<open>
  \<^verbatim>\<open>class Term\<close> has a \<^verbatim>\<open>double\<close> coefficient and an \<^verbatim>\<open>int\<close> exponent. The
  coefficient of a term is taken to be finite. Exponents are integers; the code only
  compares exponents and counts up to them, so no exponent arithmetic can overflow.
  The field \<^verbatim>\<open>exp\<close> is called \<open>exp_t\<close> here, since \<open>exp\<close> is the exponential function
  of HOL.
\<close>

record Term =
  coef :: real
  exp_t :: int

text \<open>The only exception of the header: \<^verbatim>\<open>std::invalid_argument\<close>, thrown by
  \<^verbatim>\<open>Term::operator+\<close>.\<close>

datatype error = InvalidOperand

text \<open>
  \<^verbatim>\<open>getCoef\<close> and \<^verbatim>\<open>getExp\<close> both return \<^verbatim>\<open>double\<close>; \<^verbatim>\<open>setCoef\<close> and \<^verbatim>\<open>setExp\<close>
  both take an \<^verbatim>\<open>int\<close>.
\<close>

definition getCoef :: "Term \<Rightarrow> real" where
  "getCoef t = coef t"

definition getExp :: "Term \<Rightarrow> real" where
  "getExp t = real_of_int (exp_t t)"

definition setCoef :: "int \<Rightarrow> Term \<Rightarrow> Term" where
  "setCoef c t = t\<lparr>coef := real_of_int c\<rparr>"

definition setExp :: "int \<Rightarrow> Term \<Rightarrow> Term" where
  "setExp e t = t\<lparr>exp_t := e\<rparr>"

text \<open>\<^verbatim>\<open>Term::operator+\<close> throws when the exponents differ and returns
  \<^verbatim>\<open>Term(0, 0)\<close> when the coefficients cancel.\<close>

definition Term_plus :: "Term \<Rightarrow> Term \<Rightarrow> error + Term" where
  "Term_plus a t =
     (if exp_t a \<noteq> exp_t t then Inl InvalidOperand
      else if coef a + coef t = 0 then Inr \<lparr>coef = 0, exp_t = 0\<rparr>
      else Inr \<lparr>coef = coef a + coef t, exp_t = exp_t a\<rparr>)"

definition Term_minus :: "Term \<Rightarrow> Term \<Rightarrow> error + Term" where
  "Term_minus a t = Term_plus a \<lparr>coef = - coef t, exp_t = exp_t t\<rparr>"

text \<open>
  \<^verbatim>\<open>Term::cal\<close>: the loop \<^verbatim>\<open>for (int i = 0; i < exp; ++i) x *= x;\<close> followed by
  \<^verbatim>\<open>return coef * x;\<close>.
\<close>

function cal_loop :: "int \<Rightarrow> int \<Rightarrow> double \<Rightarrow> double" where
  "cal_loop i e x = (if i < e then cal_loop (i + 1) e (dmul x x) else x)"
  by pat_completeness auto
termination
  by (relation "measure (\<lambda>(i, e, x). nat (e - i))") auto

definition Term_cal :: "Term \<Rightarrow> double \<Rightarrow> double" where
  "Term_cal t x = dmul (Finite (coef t)) (cal_loop 0 (exp_t t) x)"

section \<open>Polynomials\<close>

text \<open>\<^verbatim>\<open>class Polynomial\<close> has one data member, the vector \<^verbatim>\<open>poly\<close>.\<close>

record Polynomial =
  poly :: "Term list"

text \<open>
  The constructors from an initializer list, a C array and a \<^verbatim>\<open>std::array\<close> all copy
  the terms and sort them by \<^verbatim>\<open>getExp\<close>; nothing is merged and nothing is dropped.
  \<^verbatim>\<open>std::sort\<close> leaves the relative order of terms with the same exponent open; the
  model keeps their order.
\<close>

definition Polynomial_sort :: "Polynomial \<Rightarrow> Polynomial" where
  "Polynomial_sort P = P\<lparr>poly := sort_key getExp (poly P)\<rparr>"

definition Polynomial_init :: "Term list \<Rightarrow> Polynomial" where
  "Polynomial_init list = Polynomial_sort \<lparr>poly = list\<rparr>"

text \<open>
  \<^verbatim>\<open>Polynomial::operator+\<close>. The two iterators are the parts of the operands not yet
  consumed; \<^verbatim>\<open>result.poly.push_back\<close> appends to the third argument. The first loop
  runs while both iterators are short of the end and hands its state to the two
  loops that copy what is left. The sum of two coefficients is the exact one: a
  sum of two doubles rounds to zero only when it is zero, and nothing proved about
  \<^verbatim>\<open>operator+\<close> below depends on the digits of a sum.
\<close>

fun plus_loop :: "Term list \<Rightarrow> Term list \<Rightarrow> Term list \<Rightarrow> error + (Term list \<times> Term list \<times> Term list)" where
  "plus_loop (a # xs) (b # ys) res =
     (if exp_t a < exp_t b then plus_loop xs (b # ys) (res @ [a])
      else if exp_t a > exp_t b then plus_loop (a # xs) ys (res @ [b])
      else if coef a + coef b \<noteq> 0 then
        (case Term_plus a b of
           Inl e \<Rightarrow> Inl e
         | Inr s \<Rightarrow> plus_loop xs ys (res @ [s]))
      else plus_loop xs ys res)"
| "plus_loop xs ys res = Inr (xs, ys, res)"

fun rest_loop :: "Term list \<Rightarrow> Term list \<Rightarrow> Term list" where
  "rest_loop [] res = res"
| "rest_loop (t # ts) res = rest_loop ts (res @ [t])"

definition Polynomial_plus :: "Polynomial \<Rightarrow> Polynomial \<Rightarrow> error + Polynomial" where
  "Polynomial_plus P other =
     (case plus_loop (poly P) (poly other) [] of
        Inl e \<Rightarrow> Inl e
      | Inr (thisIt, otherIt, res) \<Rightarrow> Inr \<lparr>poly = rest_loop otherIt (rest_loop thisIt res)\<rparr>)"

text \<open>
  \<^verbatim>\<open>Polynomial::operator-\<close> takes its operand by value and runs
  \<^verbatim>\<open>t.setCoef(-t.getCoef())\<close> over the terms of that copy: the negated \<^verbatim>\<open>double\<close>
  (negation is exact) goes through the \<^verbatim>\<open>int\<close> parameter of \<^verbatim>\<open>setCoef\<close>.
\<close>

fun negate_loop :: "Term list \<Rightarrow> Term list" where
  "negate_loop [] = []"
| "negate_loop (t # ts) = setCoef (double_to_int (Finite (- getCoef t))) t # negate_loop ts"

definition Polynomial_minus :: "Polynomial \<Rightarrow> Polynomial \<Rightarrow> error + Polynomial" where
  "Polynomial_minus P other = Polynomial_plus P (other\<lparr>poly := negate_loop (poly other)\<rparr>)"

text \<open>
  \<^verbatim>\<open>Polynomial::insert\<close>: the scan returns at the first term with the same exponent,
  after \<^verbatim>\<open>it->setCoef(it->getCoef() + t.getCoef())\<close>, or at the first term with a
  greater one, after \<^verbatim>\<open>poly.insert(it, t)\<close>. When the scan reaches the end the
  function returns without having changed the vector.
\<close>

fun insert_loop :: "Term list \<Rightarrow> Term \<Rightarrow> Term list" where
  "insert_loop [] t = []"
| "insert_loop (x # xs) t =
     (if getExp x = getExp t then setCoef (double_to_int (dadd (getCoef x) (getCoef t))) x # xs
      else if getExp x > getExp t then t # x # xs
      else x # insert_loop xs t)"

definition Polynomial_insert :: "Polynomial \<Rightarrow> Term \<Rightarrow> Polynomial" where
  "Polynomial_insert P t = P\<lparr>poly := insert_loop (poly P) t\<rparr>"

section \<open>Objects and calls\<close>

text \<open>
  \<^verbatim>\<open>operator+\<close> reads its operands through \<^verbatim>\<open>this\<close> and a \<^verbatim>\<open>const\<close> reference and
  returns the local \<^verbatim>\<open>result\<close> by value; \<^verbatim>\<open>operator-\<close> receives its operand by value,
  so its parameter \<^verbatim>\<open>other\<close> is an object of its own, built by the copy constructor
  from the caller's argument. To tell the objects apart, a store lists the
  polynomials that exist; the address of an object is its position, and a new
  object goes to the end. A call on an address that holds no object has no result.
\<close>

type_synonym store = "Polynomial list"

definition new_object :: "Polynomial \<Rightarrow> store \<Rightarrow> nat \<times> store" where
  "new_object v s = (length s, s @ [v])"

definition call_plus :: "nat \<Rightarrow> nat \<Rightarrow> store \<Rightarrow> ((error + nat) \<times> store) option" where
  "call_plus lhs rhs s =
     (if lhs < length s \<and> rhs < length s then
        (case Polynomial_plus (s ! lhs) (s ! rhs) of
           Inl e \<Rightarrow> Some (Inl e, s)
         | Inr result \<Rightarrow> (case new_object result s of (r, s') \<Rightarrow> Some (Inr r, s')))
      else None)"

definition call_minus :: "nat \<Rightarrow> nat \<Rightarrow> store \<Rightarrow> ((error + nat) \<times> store) option" where
  "call_minus lhs arg s =
     (if lhs < length s \<and> arg < length s then
        (case new_object (s ! arg) s of
           (other, s1) \<Rightarrow>
             call_plus lhs other
               (s1[other := (s1 ! other)\<lparr>poly := negate_loop (poly (s1 ! other))\<rparr>]))
      else None)"

section \<open>Properties of term sequences\<close>

definition sorted_by_exp :: "Term list \<Rightarrow> bool" where
  "sorted_by_exp ts = sorted (map exp_t ts)"

definition unique_exp :: "Term list \<Rightarrow> bool" where
  "unique_exp ts = distinct (map exp_t ts)"

definition no_zero_coef :: "Term list \<Rightarrow> bool" where
  "no_zero_coef ts = (\<forall>t \<in> set ts. coef t \<noteq> 0)"

text \<open>The coefficients that \<^verbatim>\<open>operator-\<close> negates exactly: the integers whose negation
  fits an \<^verbatim>\<open>int\<close>.\<close>

definition integer_coefs :: "Term list \<Rightarrow> bool" where
  "integer_coefs ts = (\<forall>t \<in> set ts. coef t \<in> \<int> \<and> int_range (- coef t))"

text \<open>
  The three loops of \<^verbatim>\<open>operator+\<close> without the accumulator; \<open>Polynomial_plus_merged\<close>
  below shows that this is what they compute.
\<close>

fun merged :: "Term list \<Rightarrow> Term list \<Rightarrow> Term list" where
  "merged (a # xs) (b # ys) =
     (if exp_t a < exp_t b then a # merged xs (b # ys)
      else if exp_t a > exp_t b then b # merged (a # xs) ys
      else if coef a + coef b \<noteq> 0 then \<lparr>coef = coef a + coef b, exp_t = exp_t a\<rparr> # merged xs ys
      else merged xs ys)"
| "merged [] ys = ys"
| "merged xs [] = xs"

section \<open>Rounding\<close>

lemma round_even_Ints: "y \<in> \<int> \<Longrightarrow> real_of_int (round_even y) = y"
  by (auto simp: round_even_def elim: Ints_cases)

lemma quantum_eq:
  assumes "2 powr real_of_int k \<le> \<bar>r\<bar>" and "\<bar>r\<bar> < 2 powr (real_of_int k + 1)"
  shows "quantum r = 2 powr real_of_int (max k (- 1022) - 52)"
proof -
  have "0 < \<bar>r\<bar>"
    using assms(1) by (smt (verit) powr_gt_zero)
  then have "\<lfloor>log 2 \<bar>r\<bar>\<rfloor> = k"
    using assms by (simp add: floor_log_eq_powr_iff)
  then show ?thesis by (simp add: quantum_def)
qed

lemma quantum_pos: "0 < quantum r"
  by (simp add: quantum_def)

lemma round_double_exact: "is_double r \<Longrightarrow> round_double r = Finite r"
  using quantum_pos [of r]
  by (auto simp: is_double_def round_double_def round_even_Ints)

lemma is_double_grid:
  assumes "2 powr real_of_int k \<le> \<bar>r\<bar>" and "\<bar>r\<bar> < 2 powr (real_of_int k + 1)"
    and "k < 1024" and "r / 2 powr real_of_int (max k (- 1022) - 52) \<in> \<int>"
  shows "is_double r"
proof -
  have "2 powr (real_of_int k + 1) \<le> 2 powr (1024 :: real)"
    using assms(3) by (intro powr_mono) simp_all
  then have "\<bar>r\<bar> < 2 ^ 1024"
    using assms(2) by simp
  then show ?thesis
    using assms(4) quantum_eq [OF assms(1,2)] by (simp add: is_double_def)
qed

lemma is_double_of_int:
  assumes "\<bar>n\<bar> < 2 ^ 53"
  shows "is_double (real_of_int n)"
proof (cases "n = 0")
  case True
  then show ?thesis by (simp add: is_double_def)
next
  case False
  define k where "k = \<lfloor>log 2 \<bar>real_of_int n\<bar>\<rfloor>"
  have pos: "0 < \<bar>real_of_int n\<bar>" using False by simp
  have lo: "2 powr real_of_int k \<le> \<bar>real_of_int n\<bar>"
    and hi: "\<bar>real_of_int n\<bar> < 2 powr (real_of_int k + 1)"
    using floor_log_eq_powr_iff [of "\<bar>real_of_int n\<bar>" 2 k] pos by (simp_all add: k_def)
  have "1 \<le> \<bar>n\<bar>" using False by simp
  then have "1 \<le> real_of_int \<bar>n\<bar>" by linarith
  then have "0 \<le> log 2 \<bar>real_of_int n\<bar>" by simp
  then have k0: "0 \<le> k" by (simp add: k_def)
  have "real_of_int \<bar>n\<bar> < 2 ^ 53"
    using assms by (simp only: of_int_less_numeral_power_cancel_iff)
  then have "\<bar>real_of_int n\<bar> < 2 powr 53"
    by simp
  then have n53: "\<bar>real_of_int n\<bar> < 2 powr 53" .
  have k52: "k \<le> 52"
  proof (rule ccontr)
    assume "\<not> k \<le> 52"
    then have "(53::real) \<le> real_of_int k" by simp
    then have "2 powr (53::real) \<le> 2 powr real_of_int k"
      by (intro powr_mono) simp_all
    then show False using lo n53 by linarith
  qed
  define m where "m = nat (52 - k)"
  have mk: "max k (- 1022) - 52 = - int m"
    using k0 k52 by (simp add: m_def)
  have "2 powr real_of_int (- int m) = 1 / 2 ^ m"
    by (simp add: powr_minus powr_realpow inverse_eq_divide)
  then have "real_of_int n / 2 powr real_of_int (max k (- 1022) - 52) = real_of_int (n * 2 ^ m)"
    unfolding mk by simp
  then have "real_of_int n / 2 powr real_of_int (max k (- 1022) - 52) \<in> \<int>"
    by (metis Ints_of_int)
  then show ?thesis
    using lo hi k52 by (intro is_double_grid [where k = k]) simp_all
qed



lemma round_V23:
  "round_double ((1 + 1 / 2 ^ 30) * (1 + 1 / 2 ^ 30)) = Finite (1 + 1 / 2 ^ 29)"
proof -
  have r: "(1 + 1 / 2 ^ 30) * (1 + 1 / 2 ^ 30) = (1152921506754330625 / 1152921504606846976 :: real)"
    by simp
  have q: "quantum (1152921506754330625 / 1152921504606846976) = 1 / 4503599627370496"
    using quantum_eq [of 0 "1152921506754330625 / 1152921504606846976"]
    by (simp add: powr_minus inverse_eq_divide)
  have e: "round_even (1152921506754330625 / 1152921504606846976 / (1 / 4503599627370496))
      = 4503599635759104"
    by (simp add: round_even_def)
  show ?thesis
    unfolding r round_double_def q e by simp
qed

lemma round_double_pow2:
  assumes "k < 1024"
  shows "round_double (2 ^ k) = Finite (2 ^ k)"
proof -
  have p: "(2::real) ^ k = 2 powr real_of_int (int k)"
    by (simp add: powr_realpow)
  have "(2::real) ^ k / 2 powr real_of_int (max (int k) (- 1022) - 52) = 2 powr 52"
  proof -
    have "max (int k) (- 1022) = int k" by simp
    then have "(2::real) ^ k / 2 powr real_of_int (max (int k) (- 1022) - 52)
        = 2 powr real_of_int (int k) / 2 powr (real_of_int (int k) - 52)"
      by (simp only: p of_int_diff of_int_numeral)
    also have "\<dots> = 2 powr (real_of_int (int k) - (real_of_int (int k) - 52))"
      by (rule powr_diff [symmetric])
    finally show ?thesis by simp
  qed
  then have "(2::real) ^ k / 2 powr real_of_int (max (int k) (- 1022) - 52) \<in> \<int>"
    by simp
  moreover have "\<bar>(2::real) ^ k\<bar> < 2 powr (real_of_int (int k) + 1)"
    by (simp add: powr_add powr_realpow)
  moreover have "2 powr real_of_int (int k) \<le> \<bar>(2::real) ^ k\<bar>"
    by (simp add: powr_realpow)
  ultimately have "is_double (2 ^ k)"
    using assms by (intro is_double_grid [where k = "int k"]) simp_all
  then show ?thesis by (rule round_double_exact)
qed

lemma round_double_overflow: "round_double (2 ^ 1024) = PInf"
proof -
  have q: "quantum (2 ^ 1024) = 2 ^ 972"
    using quantum_eq [of 1024 "2 ^ 1024"] by simp
  have "(2::real) ^ 1024 / 2 ^ 972 = real_of_int (2 ^ 52)"
    by simp
  then have e: "real_of_int (round_even (2 ^ 1024 / 2 ^ 972)) = 2 ^ 1024 / 2 ^ 972"
    by (intro round_even_Ints) (simp only: Ints_of_int)
  show ?thesis
    unfolding round_double_def q e by simp
qed

section \<open>The loops of addition\<close>

lemma merged_Nil2 [simp]: "merged xs [] = xs"
  by (cases xs) simp_all

lemma rest_loop_append: "rest_loop ts res = res @ ts"
  by (induction ts arbitrary: res) simp_all

lemma plus_loop_merged:
  "\<exists>thisIt otherIt r. plus_loop xs ys res = Inr (thisIt, otherIt, r) \<and>
     r @ thisIt @ otherIt = res @ merged xs ys"
  by (induction xs ys res rule: plus_loop.induct) (simp_all add: Term_plus_def)

lemma Polynomial_plus_merged:
  "Polynomial_plus P other = Inr \<lparr>poly = merged (poly P) (poly other)\<rparr>"
proof -
  obtain thisIt otherIt r where
    "plus_loop (poly P) (poly other) [] = Inr (thisIt, otherIt, r)"
    "r @ thisIt @ otherIt = merged (poly P) (poly other)"
    using plus_loop_merged [of "poly P" "poly other" "[]"] by auto
  then show ?thesis
    by (simp add: Polynomial_plus_def rest_loop_append)
qed

lemma exp_merged:
  "t \<in> set (merged xs ys) \<Longrightarrow> \<exists>s \<in> set xs \<union> set ys. exp_t s = exp_t t"
  by (induction xs ys rule: merged.induct) (auto split: if_splits)

lemma exps_merged:
  "exp_t ` set (merged xs ys) \<subseteq> exp_t ` set xs \<union> exp_t ` set ys"
proof
  fix e
  assume "e \<in> exp_t ` set (merged xs ys)"
  then obtain t where "t \<in> set (merged xs ys)" and "e = exp_t t"
    by auto
  then obtain s where "s \<in> set xs \<union> set ys" and "exp_t s = e"
    using exp_merged [of t xs ys] by auto
  then show "e \<in> exp_t ` set xs \<union> exp_t ` set ys"
    by auto
qed

lemma sorted_merged:
  "sorted (map exp_t xs) \<Longrightarrow> sorted (map exp_t ys) \<Longrightarrow> sorted (map exp_t (merged xs ys))"
proof (induction xs ys rule: merged.induct)
  case (1 a xs b ys)
  show ?case
  proof (cases "exp_t a < exp_t b")
    case True
    have "\<forall>e \<in> exp_t ` set (merged xs (b # ys)). exp_t a \<le> e"
      using exps_merged [of xs "b # ys"] 1(5,6) True by fastforce
    then show ?thesis using True 1 by simp
  next
    case False
    show ?thesis
    proof (cases "exp_t b < exp_t a")
      case True
      have "\<forall>e \<in> exp_t ` set (merged (a # xs) ys). exp_t b \<le> e"
        using exps_merged [of "a # xs" ys] 1(5,6) True by fastforce
      then show ?thesis using True False 1 by simp
    next
      case eq: False
      have "\<forall>e \<in> exp_t ` set (merged xs ys). exp_t a \<le> e"
        using exps_merged [of xs ys] 1(5,6) False eq by fastforce
      then show ?thesis using False eq 1 by simp
    qed
  qed
qed simp_all

lemma strict_merged:
  "sorted_wrt (<) (map exp_t xs) \<Longrightarrow> sorted_wrt (<) (map exp_t ys)
     \<Longrightarrow> sorted_wrt (<) (map exp_t (merged xs ys))"
proof (induction xs ys rule: merged.induct)
  case (1 a xs b ys)
  show ?case
  proof (cases "exp_t a < exp_t b")
    case True
    have "\<forall>e \<in> exp_t ` set (merged xs (b # ys)). exp_t a < e"
      using exps_merged [of xs "b # ys"] 1(5,6) True by fastforce
    then show ?thesis using True 1 by simp
  next
    case False
    show ?thesis
    proof (cases "exp_t b < exp_t a")
      case True
      have "\<forall>e \<in> exp_t ` set (merged (a # xs) ys). exp_t b < e"
        using exps_merged [of "a # xs" ys] 1(5,6) True by fastforce
      then show ?thesis using True False 1 by simp
    next
      case eq: False
      have "\<forall>e \<in> exp_t ` set (merged xs ys). exp_t a < e"
        using exps_merged [of xs ys] 1(5,6) False eq by fastforce
      then show ?thesis using False eq 1 by simp
    qed
  qed
qed simp_all

lemma no_zero_merged:
  "no_zero_coef xs \<Longrightarrow> no_zero_coef ys \<Longrightarrow> no_zero_coef (merged xs ys)"
  by (induction xs ys rule: merged.induct) (simp_all add: no_zero_coef_def)

lemma merged_commute: "merged xs ys = merged ys xs"
  by (induction xs ys rule: merged.induct) (auto simp: add.commute)


lemma double_to_int_of_int:
  "v \<in> \<int> \<Longrightarrow> int_range v \<Longrightarrow> real_of_int (double_to_int (Finite v)) = v"
  by (auto elim: Ints_cases)

lemma negate_loop_integer:
  "integer_coefs ts \<Longrightarrow> negate_loop ts = map (\<lambda>t. t\<lparr>coef := - coef t\<rparr>) ts"
proof (induction ts)
  case Nil
  then show ?case by simp
next
  case (Cons t ts)
  then have "- coef t \<in> \<int>" and "int_range (- coef t)" and "integer_coefs ts"
    by (simp_all add: integer_coefs_def)
  then show ?case
    using Cons.IH double_to_int_of_int [of "- coef t"]
    by (simp add: setCoef_def getCoef_def del: double_to_int.simps)
qed

lemma merged_negated: "merged ts (map (\<lambda>t. t\<lparr>coef := - coef t\<rparr>) ts) = []"
  by (induction ts) simp_all

section \<open>Evaluation of a term\<close>

lemma is_double_4: "is_double 4"
  by (rule is_double_grid [where k = 2]) (simp_all add: powr_minus)

lemma cal_loop_exact:
  "n = nat (e - i) \<Longrightarrow> \<forall>j. 1 \<le> j \<and> j \<le> n \<longrightarrow> is_double (x ^ (2 ^ j))
     \<Longrightarrow> cal_loop i e (Finite x) = Finite (x ^ (2 ^ n))"
proof (induction n arbitrary: i x)
  case 0
  then show ?case by simp
next
  case (Suc n)
  then have less: "i < e" and n: "n = nat (e - (i + 1))"
    by simp_all
  have "is_double (x ^ (2 ^ 1))"
    using Suc.prems(2) by (metis le_add1 order_refl plus_1_eq_Suc)
  then have sq: "dmul (Finite x) (Finite x) = Finite (x * x)"
    by (simp add: round_double_exact power2_eq_square)
  have twice: "(x * x) ^ (2 ^ m) = x ^ (2 ^ Suc m)" for m
  proof -
    have "(x * x) ^ (2 ^ m) = (x ^ 2) ^ (2 ^ m)"
      by (simp add: power2_eq_square)
    also have "\<dots> = x ^ (2 * 2 ^ m)"
      by (simp add: power_mult)
    finally show ?thesis by simp
  qed
  have "is_double ((x * x) ^ (2 ^ j))" if "1 \<le> j \<and> j \<le> n" for j
  proof -
    have "1 \<le> Suc j \<and> Suc j \<le> Suc n"
      using that by simp
    then have "is_double (x ^ (2 ^ Suc j))"
      using Suc.prems(2) by blast
    then show ?thesis
      by (simp only: twice)
  qed
  then have "cal_loop (i + 1) e (Finite (x * x)) = Finite ((x * x) ^ (2 ^ n))"
    using n by (intro Suc.IH) simp_all
  then have "cal_loop i e (Finite x) = Finite ((x * x) ^ (2 ^ n))"
    using less sq by simp
  then show ?case
    by (simp only: twice)
qed

lemma Term_cal_exact:
  assumes "0 \<le> exp_t t"
    and "\<forall>j. 1 \<le> j \<and> j \<le> nat (exp_t t) \<longrightarrow> is_double (x ^ (2 ^ j))"
    and "is_double (coef t * x ^ (2 ^ nat (exp_t t)))"
  shows "Term_cal t (Finite x) = Finite (coef t * x ^ (2 ^ nat (exp_t t)))"
  using assms cal_loop_exact [of "nat (exp_t t)" "exp_t t" 0 x]
  by (simp add: Term_cal_def round_double_exact del: cal_loop.simps)

lemma is_double_16: "is_double 16"
  by (rule is_double_grid [where k = 4]) (simp_all add: powr_minus)

lemma is_double_48: "is_double 48"
  by (rule is_double_grid [where k = 5]) (simp_all add: powr_minus)

lemma square_step:
  "i < 10 \<Longrightarrow> 2 * k < 1024
     \<Longrightarrow> cal_loop i 10 (Finite (2 ^ k)) = cal_loop (i + 1) 10 (Finite (2 ^ (2 * k)))"
  using round_double_pow2 [of "2 * k"]
  by (simp add: mult_2 power_add del: cal_loop.simps) (simp add: cal_loop.simps [of i])

lemma Term_cal_overflows: "Term_cal \<lparr>coef = 1, exp_t = 10\<rparr> (Finite 2) = PInf"
proof -
  have "cal_loop 0 10 (Finite 2) = cal_loop 1 10 (Finite (2 ^ 2))"
    using square_step [of 0 1] by simp
  also have "\<dots> = cal_loop 2 10 (Finite (2 ^ 4))"
    using square_step [of 1 2] by simp
  also have "\<dots> = cal_loop 3 10 (Finite (2 ^ 8))"
    using square_step [of 2 4] by simp
  also have "\<dots> = cal_loop 4 10 (Finite (2 ^ 16))"
    using square_step [of 3 8] by simp
  also have "\<dots> = cal_loop 5 10 (Finite (2 ^ 32))"
    using square_step [of 4 16] by simp
  also have "\<dots> = cal_loop 6 10 (Finite (2 ^ 64))"
    using square_step [of 5 32] by simp
  also have "\<dots> = cal_loop 7 10 (Finite (2 ^ 128))"
    using square_step [of 6 64] by simp
  also have "\<dots> = cal_loop 8 10 (Finite (2 ^ 256))"
    using square_step [of 7 128] by simp
  also have "\<dots> = cal_loop 9 10 (Finite (2 ^ 512))"
    using square_step [of 8 256] by simp
  also have "\<dots> = cal_loop 10 10 (dmul (Finite (2 ^ 512)) (Finite (2 ^ 512)))"
    by (subst cal_loop.simps) simp
  also have "dmul (Finite (2 ^ 512)) (Finite (2 ^ 512)) = PInf"
    using round_double_overflow by simp
  finally have "cal_loop 0 10 (Finite 2) = PInf"
    by simp
  then show ?thesis
    by (simp add: Term_cal_def del: cal_loop.simps)
qed

text \<open>
  C1, as stated, fails: the products are rounded. \<^verbatim>\<open>Term(1, 1)\<close> at \<open>x = 1 + 1/2^30\<close>
  gives \<open>1 + 1/2^29\<close>, where \<open>c * x ^ (2 ^ e)\<close> is \<open>1 + 1/2^29 + 1/2^60\<close>, and
  \<^verbatim>\<open>Term(1, 10)\<close> at \<open>x = 2\<close> gives infinity, where \<open>c * x ^ (2 ^ e)\<close> is \<open>2 ^ 1024\<close>.
\<close>

theorem Term_cal_rounds:
  "Term_cal \<lparr>coef = 1, exp_t = 1\<rparr> (Finite (1 + 1 / 2 ^ 30)) = Finite (1 + 1 / 2 ^ 29)
   \<and> 1 * (1 + 1 / 2 ^ 30) ^ (2 ^ 1) \<noteq> (1 + 1 / 2 ^ 29 :: real)
   \<and> Term_cal \<lparr>coef = 1, exp_t = 10\<rparr> (Finite 2) = PInf"
proof -
  have "is_double (1 + 1 / 2 ^ 29)"
    by (rule is_double_grid [where k = 0]) (simp_all add: powr_minus)
  then have "round_double (1 + 1 / 2 ^ 29) = Finite (1 + 1 / 2 ^ 29)"
    by (rule round_double_exact)
  then have "dmul (Finite 1) (Finite (1 + 1 / 2 ^ 29)) = Finite (1 + 1 / 2 ^ 29)"
    by simp
  moreover have "cal_loop 0 1 (Finite (1 + 1 / 2 ^ 30)) = Finite (1 + 1 / 2 ^ 29)"
    using round_V23 by simp
  moreover have "1 * (1 + 1 / 2 ^ 30) ^ (2 ^ 1) \<noteq> (1 + 1 / 2 ^ 29 :: real)"
    by (simp add: power2_eq_square)
  ultimately show ?thesis
    using Term_cal_overflows by (simp add: Term_cal_def del: cal_loop.simps dmul.simps)
qed

text \<open>
  C1, amended. For a term with coefficient \<open>c\<close> and exponent \<open>e \<ge> 0\<close>, and for \<open>x\<close>
  such that the squares \<open>x ^ 2\<close>, \<open>x ^ 4\<close>, ..., \<open>x ^ (2 ^ e)\<close> and the product
  \<open>c * x ^ (2 ^ e)\<close> are doubles, \<^verbatim>\<open>cal(x)\<close> returns \<open>c * x ^ (2 ^ e)\<close>: \<open>x\<close> is
  squared once per iteration, \<open>e\<close> times. With \<open>e = 0\<close> the result is \<open>c * x\<close> when
  that is a double, and \<^verbatim>\<open>Term(3, 2)\<close> at \<open>x = 2\<close> gives 48, not 12.
\<close>

theorem Term_cal_repeated_squaring:
  "(0 \<le> exp_t t \<and> (\<forall>j. 1 \<le> j \<and> j \<le> nat (exp_t t) \<longrightarrow> is_double (x ^ (2 ^ j)))
      \<and> is_double (coef t * x ^ (2 ^ nat (exp_t t)))
     \<longrightarrow> Term_cal t (Finite x) = Finite (coef t * x ^ (2 ^ nat (exp_t t))))
   \<and> (exp_t t = 0 \<and> is_double (coef t * x) \<longrightarrow> Term_cal t (Finite x) = Finite (coef t * x))
   \<and> Term_cal \<lparr>coef = 3, exp_t = 2\<rparr> (Finite 2) = Finite 48
   \<and> Term_cal \<lparr>coef = 3, exp_t = 2\<rparr> (Finite 2) \<noteq> Finite 12"
proof -
  have "\<forall>j. 1 \<le> j \<and> j \<le> nat 2 \<longrightarrow> is_double ((2::real) ^ (2 ^ j))"
  proof (intro allI impI)
    fix j :: nat
    assume "1 \<le> j \<and> j \<le> nat 2"
    then have "j = 1 \<or> j = 2" by auto
    then show "is_double ((2::real) ^ (2 ^ j))"
      using is_double_4 is_double_16 by auto
  qed
  then have "Term_cal \<lparr>coef = 3, exp_t = 2\<rparr> (Finite 2) = Finite 48"
    using Term_cal_exact [of "\<lparr>coef = 3, exp_t = 2\<rparr>" 2] is_double_48 by simp
  moreover have "Term_cal t (Finite x) = Finite (coef t * x)" if "exp_t t = 0 \<and> is_double (coef t * x)"
    using that Term_cal_exact [of t x] by simp
  ultimately show ?thesis
    using Term_cal_exact [of t x] by auto
qed

text \<open>C1, amended, at \<^verbatim>\<open>Term(3, 2)\<close> with \<open>x = 2\<close> and at \<^verbatim>\<open>Term(5, 0)\<close> with \<open>x = 7\<close>.\<close>

theorem Term_cal_repeated_squaring_witness:
  "0 \<le> exp_t \<lparr>coef = 3, exp_t = 2\<rparr> \<and> is_double (2 ^ (2 ^ 1)) \<and> is_double (2 ^ (2 ^ 2))
   \<and> is_double (3 * 2 ^ (2 ^ 2))
   \<and> Term_cal \<lparr>coef = 3, exp_t = 2\<rparr> (Finite 2) = Finite (3 * 2 ^ (2 ^ 2))
   \<and> exp_t \<lparr>coef = 5, exp_t = 0\<rparr> = 0 \<and> is_double (5 * 7)
   \<and> Term_cal \<lparr>coef = 5, exp_t = 0\<rparr> (Finite 7) = Finite (5 * 7)"
proof -
  have "is_double 35"
    by (rule is_double_grid [where k = 5]) (simp_all add: powr_minus)
  moreover have "\<forall>j. 1 \<le> j \<and> j \<le> nat 2 \<longrightarrow> is_double ((2::real) ^ (2 ^ j))"
  proof (intro allI impI)
    fix j :: nat
    assume "1 \<le> j \<and> j \<le> nat 2"
    then have "j = 1 \<or> j = 2" by auto
    then show "is_double ((2::real) ^ (2 ^ j))"
      using is_double_4 is_double_16 by auto
  qed
  ultimately show ?thesis
    using is_double_4 is_double_16 is_double_48
      Term_cal_repeated_squaring [of "\<lparr>coef = 3, exp_t = 2\<rparr>" 2]
      Term_cal_repeated_squaring [of "\<lparr>coef = 5, exp_t = 0\<rparr>" 7]
    by simp
qed

section \<open>Addition\<close>

text \<open>
  C2, as stated, fails: a polynomial built by the initializer-list constructor may
  hold a zero coefficient or the same exponent twice, and the second and third loop
  of \<^verbatim>\<open>operator+\<close> copy such terms to the result as they are.
\<close>

theorem plus_keeps_zero_and_duplicates:
  "Polynomial_plus (Polynomial_init [\<lparr>coef = 0, exp_t = 1\<rparr>]) (Polynomial_init [])
     = Inr \<lparr>poly = [\<lparr>coef = 0, exp_t = 1\<rparr>]\<rparr>
   \<and> Polynomial_plus (Polynomial_init [\<lparr>coef = 1, exp_t = 1\<rparr>, \<lparr>coef = 1, exp_t = 1\<rparr>]) (Polynomial_init [])
     = Inr \<lparr>poly = [\<lparr>coef = 1, exp_t = 1\<rparr>, \<lparr>coef = 1, exp_t = 1\<rparr>]\<rparr>"
  by (simp add: Polynomial_plus_def Polynomial_init_def Polynomial_sort_def)

text \<open>
  C2, amended. \<^verbatim>\<open>P + Q\<close> always returns a polynomial. It is sorted ascending by
  exponent when both operands are; it has at most one term per exponent when both
  operands are sorted and have at most one term per exponent; and it has no zero
  coefficient when neither operand has one.
\<close>

theorem plus_canonical:
  "\<exists>R. Polynomial_plus P Q = Inr R
     \<and> (sorted_by_exp (poly P) \<and> sorted_by_exp (poly Q) \<longrightarrow> sorted_by_exp (poly R))
     \<and> (sorted_by_exp (poly P) \<and> unique_exp (poly P) \<and> sorted_by_exp (poly Q) \<and> unique_exp (poly Q)
          \<longrightarrow> unique_exp (poly R))
     \<and> (no_zero_coef (poly P) \<and> no_zero_coef (poly Q) \<longrightarrow> no_zero_coef (poly R))"
proof -
  let ?R = "\<lparr>poly = merged (poly P) (poly Q)\<rparr>"
  have "Polynomial_plus P Q = Inr ?R"
    by (rule Polynomial_plus_merged)
  moreover have "sorted_by_exp (poly ?R)"
    if "sorted_by_exp (poly P) \<and> sorted_by_exp (poly Q)"
    using that sorted_merged by (simp add: sorted_by_exp_def)
  moreover have "unique_exp (poly ?R)"
    if "sorted_by_exp (poly P) \<and> unique_exp (poly P) \<and> sorted_by_exp (poly Q) \<and> unique_exp (poly Q)"
    using that strict_merged [of "poly P" "poly Q"]
    by (simp add: sorted_by_exp_def unique_exp_def strict_sorted_iff)
  moreover have "no_zero_coef (poly ?R)"
    if "no_zero_coef (poly P) \<and> no_zero_coef (poly Q)"
    using that no_zero_merged by simp
  ultimately show ?thesis by blast
qed

text \<open>C2, amended, at \<open>P = {(2, 0), (3, 1)}\<close> and \<open>Q = {(-3, 1), (5, 2)}\<close>: the terms of
  exponent 1 cancel.\<close>

theorem plus_canonical_witness:
  "sorted_by_exp [\<lparr>coef = 2, exp_t = 0\<rparr>, \<lparr>coef = 3, exp_t = 1\<rparr>]
   \<and> unique_exp [\<lparr>coef = 2, exp_t = 0\<rparr>, \<lparr>coef = 3, exp_t = 1\<rparr>]
   \<and> no_zero_coef [\<lparr>coef = 2, exp_t = 0\<rparr>, \<lparr>coef = 3, exp_t = 1\<rparr>]
   \<and> sorted_by_exp [\<lparr>coef = - 3, exp_t = 1\<rparr>, \<lparr>coef = 5, exp_t = 2\<rparr>]
   \<and> unique_exp [\<lparr>coef = - 3, exp_t = 1\<rparr>, \<lparr>coef = 5, exp_t = 2\<rparr>]
   \<and> no_zero_coef [\<lparr>coef = - 3, exp_t = 1\<rparr>, \<lparr>coef = 5, exp_t = 2\<rparr>]
   \<and> Polynomial_plus \<lparr>poly = [\<lparr>coef = 2, exp_t = 0\<rparr>, \<lparr>coef = 3, exp_t = 1\<rparr>]\<rparr>
        \<lparr>poly = [\<lparr>coef = - 3, exp_t = 1\<rparr>, \<lparr>coef = 5, exp_t = 2\<rparr>]\<rparr>
      = Inr \<lparr>poly = [\<lparr>coef = 2, exp_t = 0\<rparr>, \<lparr>coef = 5, exp_t = 2\<rparr>]\<rparr>
   \<and> sorted_by_exp [\<lparr>coef = 2, exp_t = 0\<rparr>, \<lparr>coef = 5, exp_t = 2\<rparr>]
   \<and> unique_exp [\<lparr>coef = 2, exp_t = 0\<rparr>, \<lparr>coef = 5, exp_t = 2\<rparr>]
   \<and> no_zero_coef [\<lparr>coef = 2, exp_t = 0\<rparr>, \<lparr>coef = 5, exp_t = 2\<rparr>]"
  using plus_canonical [of "\<lparr>poly = [\<lparr>coef = 2, exp_t = 0\<rparr>, \<lparr>coef = 3, exp_t = 1\<rparr>]\<rparr>"
      "\<lparr>poly = [\<lparr>coef = - 3, exp_t = 1\<rparr>, \<lparr>coef = 5, exp_t = 2\<rparr>]\<rparr>"]
  by (simp add: Polynomial_plus_def Term_plus_def sorted_by_exp_def unique_exp_def no_zero_coef_def)

text \<open>
  C6. Addition is commutative: \<^verbatim>\<open>P + Q\<close> and \<^verbatim>\<open>Q + P\<close> are the same sequence of
  terms, for all operands, sorted or not.
\<close>

theorem plus_commute: "Polynomial_plus P Q = Polynomial_plus Q P"
  by (simp add: Polynomial_plus_merged merged_commute [of "poly P" "poly Q"])

lemma Term_plus_throws: "Term_plus a t = Inl InvalidOperand \<longleftrightarrow> exp_t a \<noteq> exp_t t"
  by (simp add: Term_plus_def)

text \<open>
  C8. Neither \<^verbatim>\<open>P + Q\<close> nor \<^verbatim>\<open>P - Q\<close> throws: both return a polynomial, since the
  loop calls \<^verbatim>\<open>Term::operator+\<close> only in the branch where the two exponents are equal.
\<close>

theorem never_InvalidOperand:
  "(\<exists>R. Polynomial_plus P Q = Inr R) \<and> (\<exists>R. Polynomial_minus P Q = Inr R)"
  by (simp add: Polynomial_minus_def Polynomial_plus_merged)

section \<open>Subtraction\<close>

text \<open>
  C3. The claim is that \<^verbatim>\<open>P - Q\<close> is \<^verbatim>\<open>P + Q'\<close> with \<open>Q'\<close> the exact negation of \<open>Q\<close>.
  With \<open>P\<close> empty and \<open>Q = {(1/2, 1)}\<close> the code returns \<open>{(0, 1)}\<close>, where the sum
  with the exact negation is \<open>{(-1/2, 1)}\<close>: \<^verbatim>\<open>setCoef\<close> takes an \<^verbatim>\<open>int\<close>.
\<close>

theorem minus_truncates_half:
  "Polynomial_minus \<lparr>poly = []\<rparr> \<lparr>poly = [\<lparr>coef = 1 / 2, exp_t = 1\<rparr>]\<rparr>
     = Inr \<lparr>poly = [\<lparr>coef = 0, exp_t = 1\<rparr>]\<rparr>
   \<and> Polynomial_plus \<lparr>poly = []\<rparr> \<lparr>poly = [\<lparr>coef = - (1 / 2), exp_t = 1\<rparr>]\<rparr>
     = Inr \<lparr>poly = [\<lparr>coef = - (1 / 2), exp_t = 1\<rparr>]\<rparr>"
  by (simp add: Polynomial_minus_def Polynomial_plus_def setCoef_def getCoef_def int_range_def
      ceiling_eq_iff)

lemma truncation_bounds:
  "int_range v \<Longrightarrow>
     \<bar>real_of_int (double_to_int (Finite v))\<bar> \<le> \<bar>v\<bar>
     \<and> \<bar>v - real_of_int (double_to_int (Finite v))\<bar> < 1
     \<and> - 2147483648 \<le> double_to_int (Finite v) \<and> double_to_int (Finite v) \<le> 2147483647"
  by (cases "0 \<le> v") (simp_all add: int_range_def, linarith+)

lemma truncation_exact_iff:
  "int_range v \<Longrightarrow> real_of_int (double_to_int (Finite v)) = v \<longleftrightarrow> v \<in> \<int>"
  using double_to_int_of_int [of v] Ints_of_int by metis

lemma Polynomial_minus_map:
  "Polynomial_minus P Q =
     Polynomial_plus P \<lparr>poly = map (\<lambda>t. setCoef (double_to_int (Finite (- getCoef t))) t) (poly Q)\<rparr>"
proof -
  have "negate_loop ts = map (\<lambda>t. setCoef (double_to_int (Finite (- getCoef t))) t) ts" for ts
    by (induction ts) simp_all
  then show ?thesis by (simp add: Polynomial_minus_def Polynomial_plus_merged)
qed

text \<open>
  C4, as stated, fails for a value whose integral part does not fit an \<^verbatim>\<open>int\<close>:
  \<^verbatim>\<open>setCoef(3e9)\<close> stores \<open>- 2147483648\<close>, not 3000000000.
\<close>

theorem setCoef_out_of_range:
  "coef (setCoef (double_to_int (Finite 3000000000)) \<lparr>coef = 0, exp_t = 0\<rparr>) = - 2147483648"
  by (simp add: setCoef_def int_range_def)

text \<open>
  C4, amended. For \<open>v\<close> strictly between \<open>- (2 ^ 31) - 1\<close> and \<open>2 ^ 31\<close>,
  \<^verbatim>\<open>t.setCoef(v)\<close> with a \<^verbatim>\<open>double\<close> \<open>v\<close> stores an integer: \<open>v\<close> without its
  fractional part, that is, the integer \<open>n\<close> with \<open>\<bar>n\<bar> \<le> \<bar>v\<bar>\<close> and \<open>\<bar>v - n\<bar> < 1\<close>; the
  exponent stays. So \<^verbatim>\<open>P - Q\<close> is \<^verbatim>\<open>P\<close> plus the copy of \<open>Q\<close> in which every coefficient
  \<open>c\<close> has gone through this conversion after its negation, and what is stored is
  not \<open>- c\<close> when \<open>c\<close> is not an integer and \<open>- c\<close> is in that range.
\<close>

theorem setCoef_truncates:
  "(int_range v \<longrightarrow>
      (\<exists>n :: int. coef (setCoef (double_to_int (Finite v)) t) = real_of_int n
         \<and> \<bar>real_of_int n\<bar> \<le> \<bar>v\<bar> \<and> \<bar>v - real_of_int n\<bar> < 1))
   \<and> exp_t (setCoef (double_to_int (Finite v)) t) = exp_t t
   \<and> Polynomial_minus P Q =
       Polynomial_plus P
         \<lparr>poly = map (\<lambda>u. setCoef (double_to_int (Finite (- getCoef u))) u) (poly Q)\<rparr>
   \<and> (coef u \<notin> \<int> \<and> int_range (- coef u)
        \<longrightarrow> coef (setCoef (double_to_int (Finite (- getCoef u))) u) \<noteq> - coef u)"
proof -
  have "coef (setCoef (double_to_int (Finite (- getCoef u))) u) \<noteq> - coef u"
    if "coef u \<notin> \<int> \<and> int_range (- coef u)"
  proof
    assume "coef (setCoef (double_to_int (Finite (- getCoef u))) u) = - coef u"
    then have "real_of_int (double_to_int (Finite (- coef u))) = - coef u"
      by (simp add: setCoef_def getCoef_def del: double_to_int.simps)
    then have "- coef u \<in> \<int>"
      using that by (simp add: truncation_exact_iff del: double_to_int.simps)
    then have "coef u \<in> \<int>"
      using Ints_minus [of "- coef u"] by simp
    with that show False by simp
  qed
  moreover have "\<exists>n :: int. coef (setCoef (double_to_int (Finite v)) t) = real_of_int n
         \<and> \<bar>real_of_int n\<bar> \<le> \<bar>v\<bar> \<and> \<bar>v - real_of_int n\<bar> < 1" if "int_range v"
    using truncation_bounds [OF that] by (auto simp: setCoef_def simp del: double_to_int.simps)
  moreover have "exp_t (setCoef (double_to_int (Finite v)) t) = exp_t t"
    by (simp add: setCoef_def)
  ultimately show ?thesis
    using Polynomial_minus_map [of P Q] by blast
qed

text \<open>C4, amended, at \<open>v = 5/2\<close>, stored as 2, and at the term \<open>(1/2, 1)\<close>, whose
  negated coefficient is stored as 0, not \<open>- 1/2\<close>.\<close>

theorem setCoef_truncates_witness:
  "int_range (5 / 2) \<and> coef (setCoef (double_to_int (Finite (5 / 2))) \<lparr>coef = 0, exp_t = 0\<rparr>) = 2
   \<and> coef \<lparr>coef = 1 / 2, exp_t = 1\<rparr> \<notin> \<int> \<and> int_range (- coef \<lparr>coef = 1 / 2, exp_t = 1\<rparr>)
   \<and> coef (setCoef (double_to_int (Finite (- getCoef \<lparr>coef = 1 / 2, exp_t = 1\<rparr>))) \<lparr>coef = 1 / 2, exp_t = 1\<rparr>)
       \<noteq> - coef \<lparr>coef = 1 / 2, exp_t = 1\<rparr>"
  using setCoef_truncates [of "5 / 2" "\<lparr>coef = 0, exp_t = 0\<rparr>" "\<lparr>poly = []\<rparr>" "\<lparr>poly = []\<rparr>"
      "\<lparr>coef = 1 / 2, exp_t = 1\<rparr>"]
  by (simp add: int_range_def setCoef_def floor_eq_iff)

text \<open>
  C5, as stated, fails: for \<open>P = {(1, 5)}\<close> the difference \<^verbatim>\<open>P - P\<close> is empty, and
  adding the empty polynomial to \<open>P\<close> gives \<open>P\<close> back, not the zero polynomial.
\<close>

theorem add_difference_not_zero:
  "Polynomial_minus \<lparr>poly = [\<lparr>coef = 1, exp_t = 5\<rparr>]\<rparr> \<lparr>poly = [\<lparr>coef = 1, exp_t = 5\<rparr>]\<rparr>
     = Inr \<lparr>poly = []\<rparr>
   \<and> Polynomial_plus \<lparr>poly = [\<lparr>coef = 1, exp_t = 5\<rparr>]\<rparr> \<lparr>poly = []\<rparr>
     = Inr \<lparr>poly = [\<lparr>coef = 1, exp_t = 5\<rparr>]\<rparr>"
  by (simp add: Polynomial_minus_def Polynomial_plus_def setCoef_def getCoef_def int_range_def)

text \<open>
  C5, amended. For every polynomial \<open>P\<close> whose coefficients are integers with a
  negation that fits an \<^verbatim>\<open>int\<close>, \<^verbatim>\<open>P - P\<close> is the zero polynomial (the empty
  sequence): every term cancels. Adding it to \<open>P\<close> gives \<open>P\<close>.
\<close>

theorem minus_self:
  assumes "integer_coefs (poly P)"
  shows "\<exists>D. Polynomial_minus P P = Inr D \<and> poly D = [] \<and> Polynomial_plus P D = Inr P"
  using assms
  by (simp add: Polynomial_minus_def Polynomial_plus_merged negate_loop_integer merged_negated)

text \<open>C5, amended, at \<open>P = {(1, 5)}\<close>.\<close>

theorem minus_self_witness:
  "integer_coefs (poly \<lparr>poly = [\<lparr>coef = 1, exp_t = 5\<rparr>]\<rparr>)
   \<and> Polynomial_minus \<lparr>poly = [\<lparr>coef = 1, exp_t = 5\<rparr>]\<rparr> \<lparr>poly = [\<lparr>coef = 1, exp_t = 5\<rparr>]\<rparr>
       = Inr \<lparr>poly = []\<rparr>"
  using minus_self [of "\<lparr>poly = [\<lparr>coef = 1, exp_t = 5\<rparr>]\<rparr>"]
  by (auto simp: integer_coefs_def int_range_def)

section \<open>Insertion\<close>

lemma dadd_integer:
  assumes "a + b \<in> \<int>" and "int_range (a + b)"
  shows "real_of_int (double_to_int (dadd a b)) = a + b"
proof -
  obtain n where n: "a + b = real_of_int n"
    using assms(1) by (auto elim: Ints_cases)
  then have "- 2147483649 < real_of_int n" and "real_of_int n < 2147483648"
    using assms(2) by (simp_all add: int_range_def)
  then have "- 2147483649 < n" and "n < 2147483648"
    by linarith+
  then have "\<bar>n\<bar> < 2 ^ 53"
    by simp
  then have "is_double (real_of_int n)"
    by (rule is_double_of_int)
  then have "dadd a b = Finite (a + b)"
    by (simp add: dadd_def n round_double_exact)
  then show ?thesis
    using assms by (simp add: double_to_int_of_int del: double_to_int.simps)
qed

lemma insert_loop_end:
  "\<forall>x \<in> set xs. exp_t x < exp_t t \<Longrightarrow> insert_loop xs t = xs"
  by (induction xs) (simp_all add: getExp_def)

lemma insert_loop_equal:
  "i < length xs \<Longrightarrow> \<forall>j<i. exp_t (xs ! j) < exp_t t \<Longrightarrow> exp_t (xs ! i) = exp_t t
     \<Longrightarrow> insert_loop xs t = xs[i := setCoef (double_to_int (dadd (coef (xs ! i)) (coef t))) (xs ! i)]"
proof (induction xs arbitrary: i)
  case Nil
  then show ?case by simp
next
  case (Cons x xs)
  show ?case
  proof (cases i)
    case 0
    with Cons.prems show ?thesis by (simp add: getExp_def getCoef_def del: double_to_int.simps)
  next
    case (Suc k)
    with Cons.prems have "exp_t x < exp_t t" by auto
    moreover have "insert_loop xs t = xs[k := setCoef (double_to_int (dadd (coef (xs ! k)) (coef t))) (xs ! k)]"
      using Cons.prems Suc by (intro Cons.IH) auto
    ultimately show ?thesis using Suc by (simp add: getExp_def del: double_to_int.simps)
  qed
qed

lemma insert_loop_greater:
  "i < length xs \<Longrightarrow> \<forall>j<i. exp_t (xs ! j) < exp_t t \<Longrightarrow> exp_t t < exp_t (xs ! i)
     \<Longrightarrow> insert_loop xs t = take i xs @ t # drop i xs"
proof (induction xs arbitrary: i)
  case Nil
  then show ?case by simp
next
  case (Cons x xs)
  show ?case
  proof (cases i)
    case 0
    with Cons.prems show ?thesis by (simp add: getExp_def)
  next
    case (Suc k)
    with Cons.prems have "exp_t x < exp_t t" by auto
    moreover have "insert_loop xs t = take k xs @ t # drop k xs"
      using Cons.prems Suc by (intro Cons.IH) auto
    ultimately show ?thesis using Suc by (simp add: getExp_def del: double_to_int.simps)
  qed
qed

text \<open>
  C7, as stated, fails in its first case. When the terms are not in ascending order
  (as after \<^verbatim>\<open>sort\<close> with a descending comparator), the scan stops at a greater
  exponent before it reaches the equal one: inserting \<open>(1, 2)\<close> into
  \<open>{(1, 5), (1, 2)}\<close> puts a third term in front. And the sum of the coefficients
  goes through the \<^verbatim>\<open>int\<close> parameter of \<^verbatim>\<open>setCoef\<close>: inserting \<open>(1/4, 1)\<close> into
  \<open>{(1/2, 1)}\<close> leaves the coefficient 0, not \<open>3/4\<close>.
\<close>

theorem insert_descending_and_fraction:
  "Polynomial_insert \<lparr>poly = [\<lparr>coef = 1, exp_t = 5\<rparr>, \<lparr>coef = 1, exp_t = 2\<rparr>]\<rparr> \<lparr>coef = 1, exp_t = 2\<rparr>
     = \<lparr>poly = [\<lparr>coef = 1, exp_t = 2\<rparr>, \<lparr>coef = 1, exp_t = 5\<rparr>, \<lparr>coef = 1, exp_t = 2\<rparr>]\<rparr>
   \<and> Polynomial_insert \<lparr>poly = [\<lparr>coef = 1 / 2, exp_t = 1\<rparr>]\<rparr> \<lparr>coef = 1 / 4, exp_t = 1\<rparr>
     = \<lparr>poly = [\<lparr>coef = 0, exp_t = 1\<rparr>]\<rparr>"
proof -
  have "is_double (3 / 4)"
    by (rule is_double_grid [where k = "- 1"]) (simp_all add: powr_minus)
  then have "dadd (1 / 2) (1 / 4) = Finite (3 / 4)"
    using round_double_exact [of "3 / 4"] by (simp add: dadd_def)
  then show ?thesis
    by (simp add: Polynomial_insert_def getExp_def getCoef_def setCoef_def int_range_def
        floor_eq_iff)
qed

text \<open>
  C7, amended. If \<open>P\<close> is sorted ascending by exponent, the \<open>i\<close>-th term is the first
  with the exponent of \<open>t\<close> and the sum of its coefficient and that of \<open>t\<close> is an
  integer that fits an \<^verbatim>\<open>int\<close>, then \<^verbatim>\<open>P.insert(t)\<close> adds the coefficient of \<open>t\<close> to
  that term and changes nothing else (also when the sum is zero). If no term has
  the exponent of \<open>t\<close> and the \<open>i\<close>-th term is the first with a greater exponent, \<open>t\<close>
  is inserted right before it. If no term has an equal or a greater exponent, \<open>P\<close>
  is unchanged and \<open>t\<close> is dropped.
\<close>

theorem insert_three_cases:
  "(sorted_by_exp (poly P) \<and> i < length (poly P) \<and> exp_t (poly P ! i) = exp_t t
      \<and> (\<forall>j<i. exp_t (poly P ! j) \<noteq> exp_t t)
      \<and> coef (poly P ! i) + coef t \<in> \<int> \<and> int_range (coef (poly P ! i) + coef t)
     \<longrightarrow> poly (Polynomial_insert P t)
           = (poly P)[i := (poly P ! i)\<lparr>coef := coef (poly P ! i) + coef t\<rparr>])
   \<and> ((\<forall>x \<in> set (poly P). exp_t x \<noteq> exp_t t) \<and> i < length (poly P)
      \<and> exp_t t < exp_t (poly P ! i) \<and> (\<forall>j<i. \<not> exp_t t < exp_t (poly P ! j))
     \<longrightarrow> poly (Polynomial_insert P t) = take i (poly P) @ t # drop i (poly P))
   \<and> ((\<forall>x \<in> set (poly P). exp_t x \<noteq> exp_t t) \<and> (\<forall>x \<in> set (poly P). \<not> exp_t t < exp_t x)
     \<longrightarrow> Polynomial_insert P t = P)"
proof (intro conjI impI)
  assume a: "sorted_by_exp (poly P) \<and> i < length (poly P) \<and> exp_t (poly P ! i) = exp_t t
      \<and> (\<forall>j<i. exp_t (poly P ! j) \<noteq> exp_t t)
      \<and> coef (poly P ! i) + coef t \<in> \<int> \<and> int_range (coef (poly P ! i) + coef t)"
  have "exp_t (poly P ! j) < exp_t t" if "j < i" for j
  proof -
    have "map exp_t (poly P) ! j \<le> map exp_t (poly P) ! i"
      using a that by (intro sorted_nth_mono) (simp_all add: sorted_by_exp_def)
    then have "exp_t (poly P ! j) \<le> exp_t t" using a that by simp
    moreover have "exp_t (poly P ! j) \<noteq> exp_t t" using a that by simp
    ultimately show ?thesis by simp
  qed
  then have "insert_loop (poly P) t
      = (poly P)[i := setCoef (double_to_int (dadd (coef (poly P ! i)) (coef t))) (poly P ! i)]"
    using a by (intro insert_loop_equal) simp_all
  then show "poly (Polynomial_insert P t)
      = (poly P)[i := (poly P ! i)\<lparr>coef := coef (poly P ! i) + coef t\<rparr>]"
    using a dadd_integer [of "coef (poly P ! i)" "coef t"]
    by (simp add: Polynomial_insert_def setCoef_def del: double_to_int.simps)
next
  assume a: "(\<forall>x \<in> set (poly P). exp_t x \<noteq> exp_t t) \<and> i < length (poly P)
      \<and> exp_t t < exp_t (poly P ! i) \<and> (\<forall>j<i. \<not> exp_t t < exp_t (poly P ! j))"
  have "exp_t (poly P ! j) < exp_t t" if "j < i" for j
  proof -
    have "poly P ! j \<in> set (poly P)" using a that by simp
    then have "exp_t (poly P ! j) \<noteq> exp_t t" using a by blast
    moreover have "\<not> exp_t t < exp_t (poly P ! j)" using a that by simp
    ultimately show ?thesis by simp
  qed
  then have "insert_loop (poly P) t = take i (poly P) @ t # drop i (poly P)"
    using a by (intro insert_loop_greater) simp_all
  then show "poly (Polynomial_insert P t) = take i (poly P) @ t # drop i (poly P)"
    by (simp add: Polynomial_insert_def)
next
  assume a: "(\<forall>x \<in> set (poly P). exp_t x \<noteq> exp_t t) \<and> (\<forall>x \<in> set (poly P). \<not> exp_t t < exp_t x)"
  then have "\<forall>x \<in> set (poly P). exp_t x < exp_t t"
    by (metis linorder_neqE_linordered_idom)
  then show "Polynomial_insert P t = P"
    by (simp add: Polynomial_insert_def insert_loop_end)
qed

text \<open>C7, amended, at \<open>P = {(2, 0), (3, 1), (5, 3)}\<close> with the terms \<open>(-3, 1)\<close>, \<open>(1, 2)\<close>
  and \<open>(1, 7)\<close>, one for each case.\<close>

theorem insert_three_cases_witness:
  "sorted_by_exp [\<lparr>coef = 2, exp_t = 0\<rparr>, \<lparr>coef = 3, exp_t = 1\<rparr>, \<lparr>coef = 5, exp_t = 3\<rparr>]
   \<and> poly (Polynomial_insert \<lparr>poly = [\<lparr>coef = 2, exp_t = 0\<rparr>, \<lparr>coef = 3, exp_t = 1\<rparr>, \<lparr>coef = 5, exp_t = 3\<rparr>]\<rparr>
        \<lparr>coef = - 3, exp_t = 1\<rparr>)
     = [\<lparr>coef = 2, exp_t = 0\<rparr>, \<lparr>coef = 0, exp_t = 1\<rparr>, \<lparr>coef = 5, exp_t = 3\<rparr>]
   \<and> poly (Polynomial_insert \<lparr>poly = [\<lparr>coef = 2, exp_t = 0\<rparr>, \<lparr>coef = 3, exp_t = 1\<rparr>, \<lparr>coef = 5, exp_t = 3\<rparr>]\<rparr>
        \<lparr>coef = 1, exp_t = 2\<rparr>)
     = [\<lparr>coef = 2, exp_t = 0\<rparr>, \<lparr>coef = 3, exp_t = 1\<rparr>, \<lparr>coef = 1, exp_t = 2\<rparr>, \<lparr>coef = 5, exp_t = 3\<rparr>]
   \<and> Polynomial_insert \<lparr>poly = [\<lparr>coef = 2, exp_t = 0\<rparr>, \<lparr>coef = 3, exp_t = 1\<rparr>, \<lparr>coef = 5, exp_t = 3\<rparr>]\<rparr>
        \<lparr>coef = 1, exp_t = 7\<rparr>
     = \<lparr>poly = [\<lparr>coef = 2, exp_t = 0\<rparr>, \<lparr>coef = 3, exp_t = 1\<rparr>, \<lparr>coef = 5, exp_t = 3\<rparr>]\<rparr>"
proof -
  let ?P = "\<lparr>poly = [\<lparr>coef = 2, exp_t = 0\<rparr>, \<lparr>coef = 3, exp_t = 1\<rparr>, \<lparr>coef = 5, exp_t = 3\<rparr>]\<rparr>"
  have s: "sorted_by_exp (poly ?P)"
    by (simp add: sorted_by_exp_def)
  have one: "\<forall>j<Suc 0. exp_t (poly ?P ! j) \<noteq> exp_t \<lparr>coef = - 3, exp_t = 1\<rparr>"
    by simp
  have two: "\<forall>j<Suc (Suc 0). \<not> exp_t \<lparr>coef = 1, exp_t = 2\<rparr> < exp_t (poly ?P ! j)"
    by (simp add: less_Suc_eq)
  have three: "int_range (coef (poly ?P ! Suc 0) + coef \<lparr>coef = - 3, exp_t = 1\<rparr>)"
    by (simp add: int_range_def)
  show ?thesis
    using s one two three
      insert_three_cases [of ?P "Suc 0" "\<lparr>coef = - 3, exp_t = 1\<rparr>"]
      insert_three_cases [of ?P "Suc (Suc 0)" "\<lparr>coef = 1, exp_t = 2\<rparr>"]
      insert_three_cases [of ?P 0 "\<lparr>coef = 1, exp_t = 7\<rparr>"]
    by simp
qed

section \<open>Operands of a call\<close>

lemma call_plus_result:
  assumes "lhs < length s" and "rhs < length s"
  shows "\<exists>R. Polynomial_plus (s ! lhs) (s ! rhs) = Inr R
           \<and> call_plus lhs rhs s = Some (Inr (length s), s @ [R])"
  using assms by (simp add: call_plus_def new_object_def Polynomial_plus_merged)

lemma call_minus_result:
  assumes "lhs < length s" and "arg < length s"
  shows "\<exists>R. Polynomial_minus (s ! lhs) (s ! arg) = Inr R
           \<and> call_minus lhs arg s
             = Some (Inr (Suc (length s)), s @ [(s ! arg)\<lparr>poly := negate_loop (poly (s ! arg))\<rparr>, R])"
  using assms
  by (simp add: call_minus_def call_plus_def new_object_def Polynomial_minus_def
      Polynomial_plus_merged nth_append)

text \<open>
  C9. \<^verbatim>\<open>P + Q\<close> and \<^verbatim>\<open>P - Q\<close> return a new object, which holds the result, and leave
  every object that existed before the call as it was, the two operands among
  them, also when both operands are the same object: \<^verbatim>\<open>operator-\<close> negates the
  coefficients of its own copy of the right operand.
\<close>

theorem operands_unchanged:
  assumes "lhs < length s" and "rhs < length s"
  shows "(\<exists>r s'. call_plus lhs rhs s = Some (Inr r, s')
            \<and> length s \<le> r \<and> r < length s' \<and> Polynomial_plus (s ! lhs) (s ! rhs) = Inr (s' ! r)
            \<and> s' ! lhs = s ! lhs \<and> s' ! rhs = s ! rhs \<and> take (length s) s' = s)
       \<and> (\<exists>r s'. call_minus lhs rhs s = Some (Inr r, s')
            \<and> length s \<le> r \<and> r < length s' \<and> Polynomial_minus (s ! lhs) (s ! rhs) = Inr (s' ! r)
            \<and> s' ! lhs = s ! lhs \<and> s' ! rhs = s ! rhs \<and> take (length s) s' = s)"
proof
  obtain R where "Polynomial_plus (s ! lhs) (s ! rhs) = Inr R"
    and "call_plus lhs rhs s = Some (Inr (length s), s @ [R])"
    using call_plus_result [OF assms] by blast
  then show "\<exists>r s'. call_plus lhs rhs s = Some (Inr r, s')
            \<and> length s \<le> r \<and> r < length s' \<and> Polynomial_plus (s ! lhs) (s ! rhs) = Inr (s' ! r)
            \<and> s' ! lhs = s ! lhs \<and> s' ! rhs = s ! rhs \<and> take (length s) s' = s"
    using assms by (simp add: nth_append)
next
  obtain R where "Polynomial_minus (s ! lhs) (s ! rhs) = Inr R"
    and "call_minus lhs rhs s
      = Some (Inr (Suc (length s)), s @ [(s ! rhs)\<lparr>poly := negate_loop (poly (s ! rhs))\<rparr>, R])"
    using call_minus_result [OF assms] by blast
  then show "\<exists>r s'. call_minus lhs rhs s = Some (Inr r, s')
            \<and> length s \<le> r \<and> r < length s' \<and> Polynomial_minus (s ! lhs) (s ! rhs) = Inr (s' ! r)
            \<and> s' ! lhs = s ! lhs \<and> s' ! rhs = s ! rhs \<and> take (length s) s' = s"
    using assms by (simp add: nth_append)
qed

text \<open>C9, at \<^verbatim>\<open>P - P\<close> and \<^verbatim>\<open>P + P\<close> for the only object \<open>P = {(1, 5)}\<close> of a store.\<close>

theorem operands_unchanged_witness:
  "(0::nat) < length [\<lparr>poly = [\<lparr>coef = 1, exp_t = 5\<rparr>]\<rparr>]
   \<and> call_minus 0 0 [\<lparr>poly = [\<lparr>coef = 1, exp_t = 5\<rparr>]\<rparr>]
     = Some (Inr 2, [\<lparr>poly = [\<lparr>coef = 1, exp_t = 5\<rparr>]\<rparr>, \<lparr>poly = [\<lparr>coef = - 1, exp_t = 5\<rparr>]\<rparr>, \<lparr>poly = []\<rparr>])
   \<and> call_plus 0 0 [\<lparr>poly = [\<lparr>coef = 1, exp_t = 5\<rparr>]\<rparr>]
     = Some (Inr 1, [\<lparr>poly = [\<lparr>coef = 1, exp_t = 5\<rparr>]\<rparr>, \<lparr>poly = [\<lparr>coef = 2, exp_t = 5\<rparr>]\<rparr>])"
  using operands_unchanged [of 0 "[\<lparr>poly = [\<lparr>coef = 1, exp_t = 5\<rparr>]\<rparr>]" 0]
  by (simp add: call_minus_def call_plus_def new_object_def Polynomial_plus_def Term_plus_def
      setCoef_def getCoef_def int_range_def)

end
